theory Spec2Isabelle
  imports Complex_Main "HOL-Library.AList"
begin

section \<open>Data model of the labeling tool (src/tool.py)\<close>

text \<open>
  A sample is one element of \<open>st.session_state.all_data\<close>: a JSON object read through
  its keys \<open>instruction\<close> and \<open>output\<close> (the field \<open>output_text\<close> below, since
  \<open>output\<close> is a reserved word). A label entry is the dictionary written at lines
  319-323 with the keys \<open>label\<close>, \<open>user\<close> and \<open>timestamp\<close>. Python strings are byte
  strings in UTF-8 here; equality of the encodings is equality of the strings.
\<close>

record sample =
  instruction :: string
  output_text :: string

record label_entry =
  label :: string
  user :: string
  timestamp :: string

text \<open>
  \<open>st.session_state.labels\<close> is a dictionary from \<open>str(idx)\<close> to label entries. It is
  only ever read and written by key, so it is a partial map. The assignment dictionary
  is iterated (\<open>.items()\<close>, \<open>.keys()\<close>), so it is an association list in insertion
  order, stored with \<open>AList.update\<close>: a new key goes to the end, an old key keeps its
  place.
\<close>

type_synonym ledger = "string \<rightharpoonup> label_entry"

type_synonym assignments = "(string \<times> int list) list"

datatype py_error =
    ZeroDivisionError | IndexError | KeyError | TypeError | JSONDecodeError
  | UnidentifiedImageError | OSError

subsection \<open>The label options of line 302\<close>

text \<open>The five options of the select box, as UTF-8 bytes; the first is the "not selected" sentinel.\<close>

definition label_unset :: string where
  "label_unset = [CHR 0xEC, CHR 0x84, CHR 0xA0, CHR 0xED, CHR 0x83, CHR 0x9D, CHR 0xEB,
     CHR 0x90, CHR 0x98, CHR 0xEC, CHR 0xA7, CHR 0x80, CHR 0x20, CHR 0xEC, CHR 0x95,
     CHR 0x8A, CHR 0xEC, CHR 0x9D, CHR 0x8C]"

definition label_policy :: string where
  "label_policy = [CHR 0xEC, CHR 0xA0, CHR 0x95, CHR 0xEC, CHR 0xB1, CHR 0x85]"

definition label_procedure :: string where
  "label_procedure = [CHR 0xED, CHR 0x96, CHR 0x89, CHR 0xEC, CHR 0xA0, CHR 0x95, CHR 0x20,
     CHR 0xEC, CHR 0xA0, CHR 0x88, CHR 0xEC, CHR 0xB0, CHR 0xA8]"

definition label_term :: string where
  "label_term = [CHR 0xEC, CHR 0xA0, CHR 0x84, CHR 0xEB, CHR 0xAC, CHR 0xB8, CHR 0xEC,
     CHR 0x9A, CHR 0xA9, CHR 0xEC, CHR 0x96, CHR 0xB4]"

definition label_x :: string where
  "label_x = ''X''"

definition label_options :: "string list" where
  "label_options = [label_unset, label_policy, label_procedure, label_term, label_x]"

subsection \<open>Python's \<open>str\<close> on integers and \<open>range\<close>\<close>

definition digit_char :: "nat \<Rightarrow> char" where
  "digit_char d = char_of (48 + d)"

fun str_nat :: "nat \<Rightarrow> string" where
  "str_nat n = (if n < 10 then [digit_char n] else str_nat (n div 10) @ [digit_char (n mod 10)])"

declare str_nat.simps [simp del]

definition str_int :: "int \<Rightarrow> string" where
  "str_int i = (if i < 0 then CHR ''-'' # str_nat (nat (- i)) else str_nat (nat i))"

text \<open>\<open>range(a, b)\<close> as a list: the integers from \<open>a\<close> up to \<open>b - 1\<close>, empty when \<open>b \<le> a\<close>.\<close>

definition py_range :: "int \<Rightarrow> int \<Rightarrow> int list" where
  "py_range a b = [a..b - 1]"

section \<open>Assignment partitioner: \<open>assign_data\<close> (lines 86-96)\<close>

definition user_key :: "int \<Rightarrow> string" where
  "user_key n = ''user_'' @ str_int n"

text \<open>
  The loop \<open>for i in range(num_users)\<close> with the dictionary built so far as accumulator.
  \<open>total_samples // num_users\<close> is floor division, which is \<open>div\<close> on \<open>int\<close>.
\<close>

function assign_loop :: "int \<Rightarrow> int \<Rightarrow> int \<Rightarrow> int \<Rightarrow> assignments \<Rightarrow> assignments" where
  "assign_loop total_samples num_users samples_per_user i asg =
     (if i < num_users then
        (let start_idx = i * samples_per_user;
             end_idx = (if i < num_users - 1 then start_idx + samples_per_user else total_samples)
         in assign_loop total_samples num_users samples_per_user (i + 1)
              (AList.update (user_key (i + 1)) (py_range start_idx end_idx) asg))
      else asg)"
  by pat_completeness auto
termination
  by (relation "measure (\<lambda>(t, n, s, i, a). nat (n - i))") auto

declare assign_loop.simps [simp del]

definition assign_data :: "int \<Rightarrow> int \<Rightarrow> assignments" where
  "assign_data total_samples num_users =
     assign_loop total_samples num_users (total_samples div num_users) 0 []"

section \<open>Session state and the data directory\<close>

text \<open>
  The entries of \<open>DATA_DIR\<close>, by name relative to that directory (every path of the source
  is \<open>os.path.join(DATA_DIR, name)\<close>). A JSON file holds the value that was dumped into
  it. An image file is described by what the imaging library does with it: the picture
  it shows, whether its pixel data can be loaded (a truncated file is identified by
  \<open>Image.open\<close>, which reads the header only, and fails when the data are read), and
  whether the mode of the picture can be written as PNG (a CMYK picture cannot). Any other
  file is a sequence of bytes. An entry can also be a subdirectory.

  The type of the items of the sample store is a parameter. Reset, labeling and progress
  never look inside an item. Export and the labeling loop read the keys \<open>instruction\<close> and
  \<open>output\<close> of an item and are modelled on stores of sample objects (type \<open>sample\<close>); the
  upload, which stores whatever the uploaded JSON yields, is modelled on stores of JSON
  values.
\<close>

type_synonym picture = "nat list"

record image_file =
  pixels :: picture
  data_complete :: bool
  png_mode :: bool

datatype 'a file_content =
    SamplesJson "'a list"
  | AssignmentsJson assignments
  | LabelsJson ledger
  | PictureFile image_file
  | RawBytes string
  | Subdirectory

type_synonym 'a data_dir = "(string \<times> 'a file_content) list"

record 'a app_state =
  all_data :: "'a list"
  user_assignments :: assignments
  labels :: ledger
  policy_image :: "picture option"
  files :: "'a data_dir"

definition LABEL_FILE :: string where
  "LABEL_FILE = ''labels.json''"

definition ASSIGNMENTS_FILE :: string where
  "ASSIGNMENTS_FILE = ''assignments.json''"

definition POLICY_IMAGE :: string where
  "POLICY_IMAGE = ''policy_image.png''"

definition save_data :: "'a file_content \<Rightarrow> string \<Rightarrow> 'a data_dir \<Rightarrow> 'a data_dir" where
  "save_data data filename dir = AList.update filename data dir"

text \<open>
  \<open>Image.open\<close> identifies the file from its header and reads no pixel data yet. It raises
  \<open>UnidentifiedImageError\<close> on a file that is not an image and an \<open>OSError\<close> on a directory.
\<close>

definition image_open :: "'a file_content \<Rightarrow> py_error + image_file" where
  "image_open c =
     (case c of
        PictureFile img \<Rightarrow> Inr img
      | Subdirectory \<Rightarrow> Inl OSError
      | _ \<Rightarrow> Inl UnidentifiedImageError)"

definition get_policy_image :: "'a data_dir \<Rightarrow> py_error + image_file option" where
  "get_policy_image dir =
     (case map_of dir POLICY_IMAGE of
        None \<Rightarrow> Inr None
      | Some c \<Rightarrow> (case image_open c of Inl e \<Rightarrow> Inl e | Inr img \<Rightarrow> Inr (Some img)))"

text \<open>
  \<open>policy_image.save(policy_path)\<close> (line 77) on an image opened before. The library first
  loads the pixel data, and raises \<open>OSError\<close> when they are incomplete, with the file
  untouched. Then it opens the path for writing, which empties the file, and runs the PNG
  encoder (the format follows from the extension \<open>.png\<close>); the encoder raises \<open>OSError\<close> on a
  mode it cannot write, and the file stays empty. Otherwise the file holds the same picture,
  as a complete PNG.
\<close>

definition image_save :: "image_file \<Rightarrow> string \<Rightarrow> 'a data_dir \<Rightarrow> 'a data_dir \<times> py_error option" where
  "image_save img path dir =
     (if \<not> data_complete img then (dir, Some OSError)
      else if \<not> png_mode img then (AList.update path (RawBytes []) dir, Some OSError)
      else (AList.update path (PictureFile \<lparr>pixels = pixels img, data_complete = True, png_mode = True\<rparr>) dir,
            None))"

section \<open>Reset: \<open>clear_all_data\<close> (lines 60-84)\<close>

text \<open>
  \<open>glob.glob(os.path.join(DATA_DIR, "*"))\<close> lists the entries of the directory whose name
  does not begin with a dot, every name once, subdirectories included.
\<close>

definition hidden :: "string \<Rightarrow> bool" where
  "hidden f = (case f of [] \<Rightarrow> False | c # _ \<Rightarrow> c = CHR ''.'')"

definition glob_star :: "'a data_dir \<Rightarrow> string list" where
  "glob_star dir = remdups (filter (\<lambda>f. \<not> hidden f) (map fst dir))"

text \<open>
  An operation that can raise returns the state it leaves behind together with the
  exception, if any: what Python had already mutated when the exception was raised stays
  mutated.

  \<open>os.remove\<close> deletes a file; on a directory and on a missing path it raises an \<open>OSError\<close>
  (\<open>IsADirectoryError\<close> or \<open>PermissionError\<close>, \<open>FileNotFoundError\<close>).
\<close>

definition os_remove :: "string \<Rightarrow> 'a data_dir \<Rightarrow> 'a data_dir \<times> py_error option" where
  "os_remove path dir =
     (case map_of dir path of
        None \<Rightarrow> (dir, Some OSError)
      | Some Subdirectory \<Rightarrow> (dir, Some OSError)
      | Some _ \<Rightarrow> (AList.delete path dir, None))"

text \<open>The loop of lines 71-73; it stops at the first entry that cannot be removed.\<close>

fun remove_loop :: "bool \<Rightarrow> string list \<Rightarrow> 'a data_dir \<Rightarrow> 'a data_dir \<times> py_error option" where
  "remove_loop has_policy [] dir = (dir, None)"
| "remove_loop has_policy (file # rest) dir =
     (if \<not> (has_policy \<and> file = POLICY_IMAGE) then
        (case os_remove file dir of
           (dir', Some e) \<Rightarrow> (dir', Some e)
         | (dir', None) \<Rightarrow> remove_loop has_policy rest dir')
      else remove_loop has_policy rest dir)"

text \<open>
  The session state is cleared in lines 80-82, after the files have been removed and the
  policy image has been saved again: an exception before that leaves the session as it
  was, with the files that were already removed gone.
\<close>

definition clear_all_data :: "'a app_state \<Rightarrow> 'a app_state \<times> py_error option" where
  "clear_all_data st =
     (let dir = files st;
          has_policy = (map_of dir POLICY_IMAGE \<noteq> None)
      in case (if has_policy then map_sum id Some (image_open (the (map_of dir POLICY_IMAGE)))
               else Inr None) of
           Inl e \<Rightarrow> (st, Some e)
         | Inr opened \<Rightarrow>
             (case remove_loop has_policy (glob_star dir) dir of
                (dir1, Some e) \<Rightarrow> (st\<lparr>files := dir1\<rparr>, Some e)
              | (dir1, None) \<Rightarrow>
                  (case (case opened of
                           Some img \<Rightarrow> image_save img POLICY_IMAGE dir1
                         | None \<Rightarrow> (dir1, None)) of
                     (dir2, Some e) \<Rightarrow> (st\<lparr>files := dir2\<rparr>, Some e)
                   | (dir2, None) \<Rightarrow>
                       (st\<lparr>all_data := [], user_assignments := [], labels := Map.empty,
                           files := dir2\<rparr>, None))))"

section \<open>Progress: \<open>calculate_progress\<close> (lines 98-106) and its two callers\<close>

fun calculate_progress_loop :: "ledger \<Rightarrow> int list \<Rightarrow> int \<Rightarrow> int" where
  "calculate_progress_loop lbls [] completed = completed"
| "calculate_progress_loop lbls (idx # rest) completed =
     (let label_value = map_option label (lbls (str_int idx))
      in calculate_progress_loop lbls rest
           (if label_value \<noteq> Some label_unset \<and> label_value \<noteq> None then completed + 1
            else completed))"

definition calculate_progress :: "ledger \<Rightarrow> string \<Rightarrow> int list \<Rightarrow> int" where
  "calculate_progress lbls usr assigned_indices = calculate_progress_loop lbls assigned_indices 0"

text \<open>
  The test of line 104 on an index: its entry exists and the label of the entry is not the
  sentinel.
\<close>

definition has_label :: "ledger \<Rightarrow> int \<Rightarrow> bool" where
  "has_label lbls idx = (case lbls (str_int idx) of None \<Rightarrow> False | Some e \<Rightarrow> label e \<noteq> label_unset)"

text \<open>
  \<open>completed / len(assigned_indices)\<close> is Python's true division: it raises
  \<open>ZeroDivisionError\<close> on a zero divisor. The quotient is kept exact (a rational); the
  rounding of the float is not modelled.
\<close>

definition py_truediv :: "int \<Rightarrow> int \<Rightarrow> py_error + rat" where
  "py_truediv a b = (if b = 0 then Inl ZeroDivisionError else Inr (of_int a / of_int b))"

text \<open>Lines 206-214: the side bar of the labeler. The result is what is displayed.\<close>

definition show_info_popup :: "ledger \<Rightarrow> string \<Rightarrow> int list \<Rightarrow> py_error + (int \<times> int \<times> rat)" where
  "show_info_popup lbls usr assigned_indices =
     (let completed = calculate_progress lbls usr assigned_indices;
          total = int (length assigned_indices)
      in if total > 0 then
           (case py_truediv completed total of
              Inl e \<Rightarrow> Inl e
            | Inr progress \<Rightarrow> Inr (completed, total, progress))
         else Inr (completed, total, 0))"

text \<open>Lines 189-194: the progress section of the host, one written line per labeler.\<close>

fun host_progress_loop ::
  "ledger \<Rightarrow> assignments \<Rightarrow> (string \<times> int \<times> int \<times> rat) list
     \<Rightarrow> (string \<times> int \<times> int \<times> rat) list \<times> py_error option" where
  "host_progress_loop lbls [] written = (written, None)"
| "host_progress_loop lbls ((usr, assigned_indices) # rest) written =
     (let completed = calculate_progress lbls usr assigned_indices;
          total = int (length assigned_indices)
      in case py_truediv completed total of
           Inl e \<Rightarrow> (written, Some e)
         | Inr progress \<Rightarrow>
             host_progress_loop lbls rest (written @ [(usr, completed, total, progress)]))"

definition host_progress ::
  "'a app_state \<Rightarrow> (string \<times> int \<times> int \<times> rat) list \<times> py_error option" where
  "host_progress st =
     (if labels st \<noteq> Map.empty then host_progress_loop (labels st) (user_assignments st) []
      else ([], None))"

section \<open>Export: the rows of \<open>save_labels_to_excel\<close> (lines 108-119)\<close>





section \<open>Upload (lines 160-171)\<close>

text \<open>
  What \<open>json.loads\<close> returns: any JSON value. An object is the dictionary built from it, in
  insertion order.
\<close>

datatype json =
    JNull
  | JBool bool
  | JNum rat
  | JStr string
  | JArr "json list"
  | JObj "(string \<times> json) list"


text \<open>
  The characters of a Python string, each as a string of its own. Strings are UTF-8 here,
  so a character is a byte that is not a continuation byte (\<open>0x80\<close> to \<open>0xBF\<close>) together with
  the continuation bytes that follow it.
\<close>

definition continuation_byte :: "char \<Rightarrow> bool" where
  "continuation_byte c = (128 \<le> (of_char c :: nat) \<and> (of_char c :: nat) < 192)"

fun py_chars :: "string \<Rightarrow> string list" where
  "py_chars [] = []"
| "py_chars (c # cs) =
     (case py_chars cs of
        [] \<Rightarrow> [[c]]
      | g # gs \<Rightarrow> (if continuation_byte (hd cs) then (c # g) # gs else [c] # g # gs))"

text \<open>
  What \<open>new_data.extend(content)\<close> (line 165) appends: the elements of an array, the keys of
  an object, the characters of a string. On a number, a truth value and \<open>null\<close> it raises
  \<open>TypeError\<close>, since they cannot be iterated.
\<close>

definition py_iter :: "json \<Rightarrow> py_error + json list" where
  "py_iter content =
     (case content of
        JArr xs \<Rightarrow> Inr xs
      | JObj kvs \<Rightarrow> Inr (map (\<lambda>kv. JStr (fst kv)) kvs)
      | JStr str \<Rightarrow> Inr (map JStr (py_chars str))
      | _ \<Rightarrow> Inl TypeError)"


definition data_file_name :: "string \<Rightarrow> string" where
  "data_file_name ts = ''data_'' @ ts @ ''.json''"


section \<open>Labeling: \<open>labeler_interface\<close> (lines 228-325)\<close>

text \<open>Line 299: the label shown as current, the sentinel when the index has no entry.\<close>

definition existing_label_of :: "ledger \<Rightarrow> int \<Rightarrow> string" where
  "existing_label_of lbls idx =
     (case lbls (str_int idx) of None \<Rightarrow> label_unset | Some e \<Rightarrow> label e)"

text \<open>Lines 312-324: what happens once the select box of sample \<open>idx\<close> has returned \<open>lab\<close>.\<close>

definition set_label ::
  "int \<Rightarrow> string \<Rightarrow> string \<Rightarrow> string \<Rightarrow> 'a app_state \<Rightarrow> 'a app_state" where
  "set_label idx lab usr now st =
     (let existing_label = existing_label_of (labels st) idx
      in if lab \<noteq> existing_label then
           (let lbls =
                  (if lab = label_unset then
                     (if labels st (str_int idx) \<noteq> None then (labels st)(str_int idx := None)
                      else labels st)
                   else (labels st)(str_int idx \<mapsto> \<lparr>label = lab, user = usr, timestamp = now\<rparr>))
            in st\<lparr>labels := lbls, files := save_data (LabelsJson lbls) LABEL_FILE (files st)\<rparr>)
         else st)"

text \<open>\<open>xs[i]\<close> on a Python list: a negative index counts from the end.\<close>

definition py_index :: "'a list \<Rightarrow> int \<Rightarrow> py_error + 'a" where
  "py_index xs i =
     (if 0 \<le> i \<and> i < int (length xs) then Inr (xs ! nat i)
      else if i < 0 \<and> - int (length xs) \<le> i then Inr (xs ! nat (int (length xs) + i))
      else Inl IndexError)"

text \<open>
  The loop of lines 291-325. \<open>selectbox idx\<close> is the option returned by the select box
  with key \<open>label_idx\<close>; \<open>shown\<close> collects the samples that were looked up and displayed.
\<close>

fun labeler_loop ::
  "(int \<Rightarrow> string) \<Rightarrow> string \<Rightarrow> string \<Rightarrow> int list \<Rightarrow> sample app_state
     \<Rightarrow> (int \<times> sample) list \<Rightarrow> sample app_state \<times> (int \<times> sample) list \<times> py_error option" where
  "labeler_loop selectbox usr now [] st shown = (st, shown, None)"
| "labeler_loop selectbox usr now (idx # rest) st shown =
     (if idx < int (length (all_data st)) then
        (case py_index (all_data st) idx of
           Inl e \<Rightarrow> (st, shown, Some e)
         | Inr item \<Rightarrow>
             labeler_loop selectbox usr now rest
               (set_label idx (selectbox idx) usr now st) (shown @ [(idx, item)]))
      else labeler_loop selectbox usr now rest st shown)"

definition labeler_interface ::
  "(int \<Rightarrow> string) \<Rightarrow> string \<Rightarrow> string \<Rightarrow> sample app_state
     \<Rightarrow> sample app_state \<times> (int \<times> sample) list \<times> py_error option" where
  "labeler_interface selectbox usr now st =
     (if all_data st = [] then (st, [], None)
      else if user_assignments st = [] then (st, [], None)
      else if usr = [] then (st, [], None)
      else (case map_of (user_assignments st) usr of
              None \<Rightarrow> (st, [], Some KeyError)
            | Some assigned_indices \<Rightarrow>
                (case show_info_popup (labels st) usr assigned_indices of
                   Inl e \<Rightarrow> (st, [], Some e)
                 | Inr info \<Rightarrow> labeler_loop selectbox usr now assigned_indices st [])))"

subsection \<open>Sequences of labeling actions\<close>

text \<open>A labeling action: index, chosen option, labeler, time.\<close>

type_synonym action = "int \<times> string \<times> string \<times> string"

fun run_actions :: "action list \<Rightarrow> 'a app_state \<Rightarrow> 'a app_state" where
  "run_actions [] st = st"
| "run_actions ((idx, lab, usr, now) # rest) st = run_actions rest (set_label idx lab usr now st)"

text \<open>The option chosen by the most recent action on an index, if there is one.\<close>

fun last_choice :: "int \<Rightarrow> action list \<Rightarrow> string option" where
  "last_choice idx [] = None"
| "last_choice idx ((i, lab, usr, now) # rest) =
     (case last_choice idx rest of
        Some l \<Rightarrow> Some l
      | None \<Rightarrow> (if i = idx then Some lab else None))"

text \<open>No stored entry carries the sentinel as its label.\<close>

definition ledger_inv :: "ledger \<Rightarrow> bool" where
  "ledger_inv lbls = (\<forall>k e. lbls k = Some e \<longrightarrow> label e \<noteq> label_unset)"

section \<open>Concrete sessions and inputs\<close>

text \<open>
  Lines 48-58 on a data directory without files: the state in which a fresh deployment
  starts.
\<close>

definition init_state :: "sample app_state" where
  "init_state =
     \<lparr>all_data = [], user_assignments = [], labels = Map.empty, policy_image = None, files = []\<rparr>"

text \<open>A session in which sample 0 carries a label given by \<open>user_1\<close>.\<close>

definition relabel_state :: "sample app_state" where
  "relabel_state =
     init_state\<lparr>labels :=
       [str_int 0 \<mapsto> \<lparr>label = label_policy, user = ''user_1'', timestamp = ''2024-01-01 10:00:00''\<rparr>]\<rparr>"

text \<open>Three labeling actions: sample 0 is labeled, sample 1 is labeled, sample 0 is reset.\<close>

definition example_actions :: "action list" where
  "example_actions =
     [(0, label_policy, ''user_1'', ''2024-01-01 10:00:00''),
      (1, label_x, ''user_2'', ''2024-01-01 10:01:00''),
      (0, label_unset, ''user_1'', ''2024-01-01 10:02:00'')]"

text \<open>A ledger with two labeled samples.\<close>

definition example_ledger :: ledger where
  "example_ledger =
     [str_int 0 \<mapsto> \<lparr>label = label_policy, user = ''user_1'', timestamp = ''2024-01-01 10:00:00''\<rparr>,
      str_int 2 \<mapsto> \<lparr>label = label_x, user = ''user_1'', timestamp = ''2024-01-01 10:03:00''\<rparr>]"

text \<open>
  One uploaded sample distributed over two labelers (so that \<open>user_1\<close> receives nothing),
  and one label given by \<open>user_2\<close>.
\<close>

definition one_sample :: "sample list" where
  "one_sample = [\<lparr>instruction = ''What is zoning?'', output_text = ''A land use rule.''\<rparr>]"

definition host_failing_state :: "sample app_state" where
  "host_failing_state =
     init_state\<lparr>all_data := one_sample,
                user_assignments := assign_data 1 2,
                labels := [str_int 0 \<mapsto> \<lparr>label = label_policy, user = ''user_2'',
                                           timestamp = ''2024-01-01 10:00:00''\<rparr>]\<rparr>"





text \<open>
  A deployment in use: one sample, one labeler, two labels, and a policy picture. In the
  second state the file under the policy name is not an image (line 137 stores an upload
  before line 138 opens it).
\<close>

definition used_state :: "sample app_state" where
  "used_state =
     \<lparr>all_data = one_sample,
      user_assignments = [(''user_1'', [0])],
      labels = example_ledger,
      policy_image = Some [7, 7, 7],
      files = [(''labels.json'', LabelsJson example_ledger),
               (''policy_image.png'',
                  PictureFile \<lparr>pixels = [7, 7, 7], data_complete = True, png_mode = True\<rparr>),
               (''data_20240101_100000.json'', SamplesJson one_sample),
               (''assignments.json'', AssignmentsJson [(''user_1'', [0])])]\<rparr>"

definition broken_policy_state :: "sample app_state" where
  "broken_policy_state =
     \<lparr>all_data = one_sample,
      user_assignments = [(''user_1'', [0])],
      labels = example_ledger,
      policy_image = None,
      files = [(''labels.json'', LabelsJson example_ledger),
               (''policy_image.png'', RawBytes ''not an image''),
               (''data_20240101_100000.json'', SamplesJson one_sample),
               (''assignments.json'', AssignmentsJson [(''user_1'', [0])])]\<rparr>"

text \<open>
  One sample in the store, and an assignment left over from a larger store: index 5 has
  no sample.
\<close>

definition stale_state :: "sample app_state" where
  "stale_state = init_state\<lparr>all_data := one_sample, user_assignments := [(''user_1'', [0, 5])]\<rparr>"

text \<open>
  Two more deployments: one with a subdirectory in the data directory, and one whose
  policy picture has a mode that the PNG encoder does not write.
\<close>

definition subdirectory_state :: "sample app_state" where
  "subdirectory_state =
     \<lparr>all_data = one_sample,
      user_assignments = [(''user_1'', [0])],
      labels = example_ledger,
      policy_image = None,
      files = [(''data_20240101_100000.json'', SamplesJson one_sample),
               (''backup'', Subdirectory),
               (''labels.json'', LabelsJson example_ledger)]\<rparr>"

definition cmyk_policy_state :: "sample app_state" where
  "cmyk_policy_state =
     \<lparr>all_data = one_sample,
      user_assignments = [(''user_1'', [0])],
      labels = example_ledger,
      policy_image = Some [7, 7, 7],
      files = [(''labels.json'', LabelsJson example_ledger),
               (''policy_image.png'',
                  PictureFile \<lparr>pixels = [7, 7, 7], data_complete = True, png_mode = False\<rparr>)]\<rparr>"

section \<open>Auxiliary facts\<close>

subsection \<open>Decimal rendering is injective\<close>

lemma digit_char_inj: "a < 10 \<Longrightarrow> b < 10 \<Longrightarrow> digit_char a = digit_char b \<Longrightarrow> a = b"
proof -
  assume a: "a < 10" and b: "b < 10" and eq: "digit_char a = digit_char b"
  from eq have "(of_char (char_of (48 + a)) :: nat) = of_char (char_of (48 + b))"
    by (simp add: digit_char_def)
  then have "(48 + a) mod 256 = (48 + b) mod 256"
    by (simp only: of_char_of)
  with a b show "a = b" by simp
qed

lemma str_nat_nonempty: "str_nat n \<noteq> []"
  by (subst str_nat.simps) simp

lemma str_nat_inj: "str_nat n = str_nat m \<Longrightarrow> n = m"
proof (induction n arbitrary: m rule: str_nat.induct)
  case (1 n)
  show ?case
  proof (cases "n < 10")
    case True
    show ?thesis
    proof (cases "m < 10")
      case mT: True
      from "1.prems" True mT have "digit_char n = digit_char m"
        by (simp add: str_nat.simps[of n] str_nat.simps[of m])
      then show ?thesis using True mT digit_char_inj by blast
    next
      case False
      with "1.prems" True show ?thesis
        using str_nat_nonempty[of "m div 10"]
        by (simp add: str_nat.simps[of n] str_nat.simps[of m])
    qed
  next
    case False
    show ?thesis
    proof (cases "m < 10")
      case True
      with "1.prems" False show ?thesis
        using str_nat_nonempty[of "n div 10"]
        by (simp add: str_nat.simps[of n] str_nat.simps[of m])
    next
      case mF: False
      from "1.prems" False mF
      have eq: "str_nat (n div 10) = str_nat (m div 10)"
        and d: "digit_char (n mod 10) = digit_char (m mod 10)"
        by (simp_all add: str_nat.simps[of n] str_nat.simps[of m])
      from "1.IH"[OF False eq] have "n div 10 = m div 10" .
      moreover from d have "n mod 10 = m mod 10"
        by (intro digit_char_inj) simp_all
      ultimately show ?thesis
        by (metis div_mult_mod_eq)
    qed
  qed
qed

lemma digit_char_not_minus: "d < 10 \<Longrightarrow> digit_char d \<noteq> CHR ''-''"
proof
  assume d: "d < 10" and eq: "digit_char d = CHR ''-''"
  from eq have "(of_char (char_of (48 + d)) :: nat) = of_char (CHR ''-'')"
    by (simp add: digit_char_def)
  then have "(48 + d) mod 256 = 45"
    by (simp only: of_char_of) simp
  with d show False by simp
qed

lemma hd_str_nat: "hd (str_nat n) \<noteq> CHR ''-''"
proof (induction n rule: str_nat.induct)
  case (1 n)
  show ?case
  proof (cases "n < 10")
    case True
    then show ?thesis
      by (simp add: str_nat.simps[of n] digit_char_not_minus)
  next
    case False
    with "1.IH" show ?thesis
      by (simp add: str_nat.simps[of n] str_nat_nonempty)
  qed
qed

lemma str_int_inj: "str_int i = str_int j \<Longrightarrow> i = j"
proof -
  assume eq: "str_int i = str_int j"
  have neg_pos: False if "a < 0" "0 \<le> b" "str_int a = str_int b" for a b
  proof -
    from that have "CHR ''-'' = hd (str_nat (nat b))"
      by (simp add: str_int_def) (metis list.sel(1))
    with hd_str_nat[of "nat b"] show False by simp
  qed
  show "i = j"
  proof (cases "i < 0"; cases "j < 0")
    assume "i < 0" "j < 0"
    with eq have "nat (- i) = nat (- j)"
      by (simp add: str_int_def str_nat_inj)
    with \<open>i < 0\<close> \<open>j < 0\<close> show ?thesis by simp
  next
    assume "i < 0" "\<not> j < 0"
    with eq neg_pos[of i j] show ?thesis by simp
  next
    assume "\<not> i < 0" "j < 0"
    with eq neg_pos[of j i] show ?thesis by simp
  next
    assume "\<not> i < 0" "\<not> j < 0"
    with eq have "nat i = nat j"
      by (simp add: str_int_def str_nat_inj)
    with \<open>\<not> i < 0\<close> \<open>\<not> j < 0\<close> show ?thesis by simp
  qed
qed

lemma user_key_inj: "user_key i = user_key j \<Longrightarrow> i = j"
  by (simp add: user_key_def str_int_inj)

subsection \<open>The partition loop in closed form\<close>

lemma update_fresh: "k \<notin> fst ` set al \<Longrightarrow> AList.update k v al = al @ [(k, v)]"
  by (induction al) auto

lemma upto_append: "i \<le> j \<Longrightarrow> j \<le> k + 1 \<Longrightarrow> [i..j - 1] @ [j..k] = [i..k]"
proof (cases "j \<le> k")
  case True
  assume "i \<le> j"
  with True show ?thesis by (simp add: upto_split1[of i j k])
next
  case False
  assume "j \<le> k + 1"
  with False have "j = k + 1" by simp
  then show ?thesis by simp
qed

lemma assign_loop_eq:
  "0 \<le> i \<Longrightarrow> fst ` set asg \<subseteq> user_key ` {1..i} \<Longrightarrow>
   assign_loop t n s i asg =
     asg @ map (\<lambda>j. (user_key (j + 1), py_range (j * s) (if j < n - 1 then j * s + s else t))) [i..n - 1]"
proof (induction t n s i asg rule: assign_loop.induct)
  case (1 t n s i asg)
  show ?case
  proof (cases "i < n")
    case True
    let ?v = "py_range (i * s) (if i < n - 1 then i * s + s else t)"
    have fresh: "user_key (i + 1) \<notin> fst ` set asg"
    proof
      assume "user_key (i + 1) \<in> fst ` set asg"
      with "1.prems"(2) obtain k where "k \<in> {1..i}" "user_key (i + 1) = user_key k" by auto
      then show False using user_key_inj[of "i + 1" k] by simp
    qed
    then have upd: "AList.update (user_key (i + 1)) ?v asg = asg @ [(user_key (i + 1), ?v)]"
      by (rule update_fresh)
    have keys: "fst ` set (asg @ [(user_key (i + 1), ?v)]) \<subseteq> user_key ` {1..i + 1}"
      using "1.prems" by auto
    have "0 \<le> i + 1" using "1.prems"(1) by simp
    from "1.IH"[OF True refl refl this, unfolded upd, OF keys]
    have "assign_loop t n s (i + 1) (asg @ [(user_key (i + 1), ?v)]) =
            (asg @ [(user_key (i + 1), ?v)]) @
            map (\<lambda>j. (user_key (j + 1), py_range (j * s) (if j < n - 1 then j * s + s else t)))
              [i + 1..n - 1]" .
    moreover have "[i..n - 1] = i # [i + 1..n - 1]"
      using True by (simp add: upto_rec1)
    ultimately show ?thesis
      using True by (subst assign_loop.simps) (simp add: Let_def upd)
  next
    case False
    then show ?thesis by (subst assign_loop.simps) simp
  qed
qed

lemma assign_data_eq:
  "assign_data t n =
     map (\<lambda>j. (user_key (j + 1), py_range (j * (t div n)) (if j < n - 1 then j * (t div n) + t div n else t)))
       [0..n - 1]"
  unfolding assign_data_def by (subst assign_loop_eq) simp_all

lemma concat_blocks:
  assumes "0 \<le> s" and "- 1 \<le> m"
  shows "concat (map (\<lambda>j. [j * s..j * s + s - 1]) [0..m]) = [0..(m + 1) * s - 1]"
  using assms(2)
proof (induction m rule: int_ge_induct)
  case base
  then show ?case by simp
next
  case (step m)
  have "[0..m + 1] = [0..m] @ [m + 1]"
    using step.hyps by (simp add: upto_rec2)
  moreover have "0 \<le> (m + 1) * s"
    using assms(1) step.hyps by simp
  then have "[0..(m + 1) * s - 1] @ [(m + 1) * s..(m + 1) * s + s - 1] = [0..(m + 1) * s + s - 1]"
    using assms(1) upto_append[of 0 "(m + 1) * s" "(m + 1) * s + s - 1"] by simp
  ultimately show ?case
    using step by (simp add: algebra_simps)
qed

lemma last_block_bounds:
  assumes "0 \<le> (t::int)" and "1 \<le> n"
  shows "0 \<le> t div n" and "(n - 1) * (t div n) \<le> t"
    and "t - (n - 1) * (t div n) = t div n + t mod n"
proof -
  show s0: "0 \<le> t div n" using assms by (simp add: pos_imp_zdiv_nonneg_iff)
  have eq: "t = n * (t div n) + t mod n" by simp
  have m0: "0 \<le> t mod n" using assms by simp
  show "t - (n - 1) * (t div n) = t div n + t mod n"
    using eq by (simp add: algebra_simps)
  then show "(n - 1) * (t div n) \<le> t" using s0 m0 by linarith
qed

lemma concat_assign_data:
  assumes "0 \<le> t" and "1 \<le> n"
  shows "concat (map snd (assign_data t n)) = [0..t - 1]"
proof -
  let ?s = "t div n"
  let ?f = "\<lambda>j. py_range (j * ?s) (if j < n - 1 then j * ?s + ?s else t)"
  have split: "[0..n - 1] = [0..n - 2] @ [n - 1]"
    using assms(2) upto_rec2[of 0 "n - 1"] by simp
  have front: "map ?f [0..n - 2] = map (\<lambda>j. [j * ?s..j * ?s + ?s - 1]) [0..n - 2]"
    by (rule map_cong) (auto simp: py_range_def)
  have "concat (map snd (assign_data t n)) = concat (map ?f [0..n - 1])"
    by (simp add: assign_data_eq comp_def)
  also have "\<dots> = concat (map (\<lambda>j. [j * ?s..j * ?s + ?s - 1]) [0..n - 2]) @ [(n - 1) * ?s..t - 1]"
    by (simp only: split map_append concat_append front) (simp add: py_range_def)
  also have "\<dots> = [0..(n - 1) * ?s - 1] @ [(n - 1) * ?s..t - 1]"
    using concat_blocks[of ?s "n - 2"] last_block_bounds(1)[OF assms] assms(2) by simp
  also have "\<dots> = [0..t - 1]"
    using upto_append[of 0 "(n - 1) * ?s" "t - 1"] last_block_bounds[OF assms] assms(2) by simp
  finally show ?thesis .
qed


lemma map_Suc_upto: "map (\<lambda>j. j + 1) [i..j] = [i + 1..j + 1]"
  by (rule nth_equalityI) simp_all

lemma map_of_keyed:
  "inj g \<Longrightarrow> k \<in> set xs \<Longrightarrow> map_of (map (\<lambda>j. (g j, f j)) xs) (g k) = Some (f k)"
  by (induction xs) (auto simp: inj_eq)

subsection \<open>One labeling action, and sequences of them\<close>

lemma set_label_same: "lab = existing_label_of (labels st) idx \<Longrightarrow> set_label idx lab usr now st = st"
  by (simp add: set_label_def)

lemma set_label_write:
  "lab \<noteq> existing_label_of (labels st) idx \<Longrightarrow> lab \<noteq> label_unset \<Longrightarrow>
   set_label idx lab usr now st =
     st\<lparr>labels := (labels st)(str_int idx \<mapsto> \<lparr>label = lab, user = usr, timestamp = now\<rparr>),
        files := save_data (LabelsJson ((labels st)(str_int idx \<mapsto> \<lparr>label = lab, user = usr, timestamp = now\<rparr>)))
                   LABEL_FILE (files st)\<rparr>"
  by (simp add: set_label_def Let_def)

lemma set_label_delete:
  "label_unset \<noteq> existing_label_of (labels st) idx \<Longrightarrow>
   set_label idx label_unset usr now st =
     st\<lparr>labels := (labels st)(str_int idx := None),
        files := save_data (LabelsJson ((labels st)(str_int idx := None))) LABEL_FILE (files st)\<rparr>"
  by (auto simp: set_label_def existing_label_of_def Let_def split: option.splits)

lemma labels_set_label:
  "labels (set_label idx lab usr now st) =
     (if lab = existing_label_of (labels st) idx then labels st
      else if lab = label_unset then (labels st)(str_int idx := None)
      else (labels st)(str_int idx \<mapsto> \<lparr>label = lab, user = usr, timestamp = now\<rparr>))"
  by (simp add: set_label_same set_label_write set_label_delete)

lemma labels_set_label_other:
  "j \<noteq> idx \<Longrightarrow> labels (set_label idx lab usr now st) (str_int j) = labels st (str_int j)"
  by (auto simp: labels_set_label dest: str_int_inj)

lemma set_label_present:
  "lab \<noteq> label_unset \<Longrightarrow>
   \<exists>e. labels (set_label idx lab usr now st) (str_int idx) = Some e \<and> label e = lab"
  by (cases "labels st (str_int idx)")
     (auto simp: labels_set_label existing_label_of_def)

lemma ledger_inv_set_label:
  "ledger_inv (labels st) \<Longrightarrow> ledger_inv (labels (set_label idx lab usr now st))"
  by (auto simp: ledger_inv_def labels_set_label split: if_splits)

lemma set_label_present_iff:
  "ledger_inv (labels st) \<Longrightarrow>
   (labels (set_label idx lab usr now st) (str_int idx) \<noteq> None) = (lab \<noteq> label_unset)"
  by (cases "labels st (str_int idx)")
     (auto simp: labels_set_label existing_label_of_def ledger_inv_def)

lemma ledger_inv_run: "ledger_inv (labels st) \<Longrightarrow> ledger_inv (labels (run_actions acts st))"
proof (induction acts arbitrary: st)
  case Nil
  then show ?case by simp
next
  case (Cons a acts)
  obtain i lab usr now where a: "a = (i, lab, usr, now)" by (cases a)
  from Cons.prems have "ledger_inv (labels (set_label i lab usr now st))"
    by (rule ledger_inv_set_label)
  then show ?case using Cons.IH by (simp add: a)
qed

lemma run_actions_present:
  "ledger_inv (labels st) \<Longrightarrow>
   (labels (run_actions acts st) (str_int idx) \<noteq> None) =
     (case last_choice idx acts of
        Some l \<Rightarrow> l \<noteq> label_unset
      | None \<Rightarrow> labels st (str_int idx) \<noteq> None)"
proof (induction acts arbitrary: st)
  case Nil
  then show ?case by simp
next
  case (Cons a acts)
  obtain i lab usr now where a: "a = (i, lab, usr, now)" by (cases a)
  let ?st = "set_label i lab usr now st"
  have inv: "ledger_inv (labels ?st)"
    using Cons.prems by (rule ledger_inv_set_label)
  have step: "(labels ?st (str_int idx) \<noteq> None) =
      (if i = idx then lab \<noteq> label_unset else labels st (str_int idx) \<noteq> None)"
    using set_label_present_iff[OF Cons.prems, of i lab usr now]
      labels_set_label_other[of idx i lab usr now st]
    by auto
  show ?case
  proof (cases "last_choice idx acts")
    case None
    with Cons.IH[OF inv] step show ?thesis by (simp add: a)
  next
    case (Some l)
    with Cons.IH[OF inv] show ?thesis by (simp add: a)
  qed
qed

lemma label_policy_set: "label_policy \<noteq> label_unset"
  by (simp add: label_policy_def label_unset_def)

lemma label_x_set: "label_x \<noteq> label_unset"
  by (simp add: label_x_def label_unset_def)

subsection \<open>The progress count in closed form\<close>

lemma calculate_progress_loop_eq:
  "calculate_progress_loop lbls xs c = c + int (length (filter (has_label lbls) xs))"
  by (induction xs arbitrary: c) (auto simp: has_label_def Let_def split: option.splits)

lemma has_label_inv: "ledger_inv lbls \<Longrightarrow> has_label lbls idx = (lbls (str_int idx) \<noteq> None)"
  by (auto simp: has_label_def ledger_inv_def split: option.splits)

lemma show_info_popup_eq:
  "show_info_popup lbls usr xs =
     Inr (calculate_progress lbls usr xs, int (length xs),
          if xs = [] then 0 else of_int (calculate_progress lbls usr xs) / of_int (int (length xs)))"
  by (cases xs) (simp_all add: show_info_popup_def py_truediv_def Let_def)

lemma ledger_inv_empty: "ledger_inv Map.empty"
  by (simp add: ledger_inv_def)

subsection \<open>The progress section of the host\<close>

lemma host_progress_loop_empty:
  "(usr, []) \<in> set asg \<Longrightarrow> snd (host_progress_loop lbls asg written) = Some ZeroDivisionError"
proof (induction asg arbitrary: written)
  case Nil
  then show ?case by simp
next
  case (Cons a asg)
  obtain u xs where a: "a = (u, xs)" by (cases a)
  show ?case
  proof (cases "xs = []")
    case True
    then show ?thesis by (simp add: a py_truediv_def)
  next
    case False
    with Cons.prems a have "(usr, []) \<in> set asg" by auto
    from Cons.IH[OF this] False show ?thesis
      by (simp add: a py_truediv_def Let_def)
  qed
qed

subsection \<open>The export loop\<close>





subsection \<open>The upload loop\<close>


lemma py_iter_error: "py_iter v = Inl e \<Longrightarrow> e = TypeError \<and> (v = JNull \<or> (\<exists>b. v = JBool b) \<or> (\<exists>n. v = JNum n))"
  by (cases v) (simp_all add: py_iter_def)

subsection \<open>The data directory after a reset\<close>

lemma set_glob_star: "set (glob_star dir) = {f \<in> fst ` set dir. \<not> hidden f}"
  by (auto simp: glob_star_def)

lemma distinct_glob_star: "distinct (glob_star dir)"
  by (simp add: glob_star_def)

lemma os_remove_file:
  "map_of dir path = Some c \<Longrightarrow> c \<noteq> Subdirectory \<Longrightarrow> os_remove path dir = (AList.delete path dir, None)"
  by (cases c) (simp_all add: os_remove_def)

lemma remove_loop_ok:
  "distinct names \<Longrightarrow>
   (\<forall>f \<in> set names. \<not> (has_policy \<and> f = POLICY_IMAGE) \<longrightarrow>
        (\<exists>c. map_of dir f = Some c \<and> c \<noteq> Subdirectory)) \<Longrightarrow>
   \<exists>dir'. remove_loop has_policy names dir = (dir', None)
     \<and> (\<forall>f. map_of dir' f =
            (if f \<in> set names \<and> \<not> (has_policy \<and> f = POLICY_IMAGE) then None else map_of dir f))"
proof (induction names arbitrary: dir)
  case Nil
  then show ?case by simp
next
  case (Cons fl rest)
  show ?case
  proof (cases "has_policy \<and> fl = POLICY_IMAGE")
    case True
    have "distinct rest" using Cons.prems(1) by simp
    moreover have "\<forall>f \<in> set rest. \<not> (has_policy \<and> f = POLICY_IMAGE) \<longrightarrow>
        (\<exists>c. map_of dir f = Some c \<and> c \<noteq> Subdirectory)"
      using Cons.prems(2) by simp
    ultimately obtain dir' where "remove_loop has_policy rest dir = (dir', None)"
      and "\<forall>f. map_of dir' f =
            (if f \<in> set rest \<and> \<not> (has_policy \<and> f = POLICY_IMAGE) then None else map_of dir f)"
      using Cons.IH by blast
    with True show ?thesis by auto
  next
    case False
    with Cons.prems(2) obtain c where c: "map_of dir fl = Some c" "c \<noteq> Subdirectory" by auto
    then have rm: "os_remove fl dir = (AList.delete fl dir, None)" by (rule os_remove_file)
    have "distinct rest" and notin: "fl \<notin> set rest" using Cons.prems(1) by simp_all
    moreover have "\<forall>f \<in> set rest. \<not> (has_policy \<and> f = POLICY_IMAGE) \<longrightarrow>
        (\<exists>c. map_of (AList.delete fl dir) f = Some c \<and> c \<noteq> Subdirectory)"
      using Cons.prems(2) notin by (auto simp: delete_conv')
    ultimately obtain dir' where r: "remove_loop has_policy rest (AList.delete fl dir) = (dir', None)"
      and m: "\<forall>f. map_of dir' f =
            (if f \<in> set rest \<and> \<not> (has_policy \<and> f = POLICY_IMAGE) then None
             else map_of (AList.delete fl dir) f)"
      using Cons.IH[of "AList.delete fl dir"] by blast
    have "remove_loop has_policy (fl # rest) dir = (dir', None)"
      using False rm r by simp
    moreover have "\<forall>f. map_of dir' f =
            (if f \<in> set (fl # rest) \<and> \<not> (has_policy \<and> f = POLICY_IMAGE) then None else map_of dir f)"
      using m False by (auto simp: delete_conv')
    ultimately show ?thesis by blast
  qed
qed

lemma remove_listed_ok:
  assumes "\<forall>f. \<not> hidden f \<and> \<not> (has_policy \<and> f = POLICY_IMAGE) \<longrightarrow> map_of dir f \<noteq> Some Subdirectory"
  shows "\<exists>dir'. remove_loop has_policy (glob_star dir) dir = (dir', None)
     \<and> (\<forall>f. map_of dir' f =
            (if hidden f \<or> (has_policy \<and> f = POLICY_IMAGE) then map_of dir f else None))"
proof -
  have pre: "\<forall>f \<in> set (glob_star dir). \<not> (has_policy \<and> f = POLICY_IMAGE) \<longrightarrow>
        (\<exists>c. map_of dir f = Some c \<and> c \<noteq> Subdirectory)"
  proof (intro ballI impI)
    fix f assume f: "f \<in> set (glob_star dir)" and np: "\<not> (has_policy \<and> f = POLICY_IMAGE)"
    from f have "f \<in> fst ` set dir" and nh: "\<not> hidden f" by (auto simp: set_glob_star)
    then obtain c where c: "map_of dir f = Some c"
      by (cases "map_of dir f") (auto simp: map_of_eq_None_iff)
    with assms nh np have "c \<noteq> Subdirectory" by auto
    with c show "\<exists>c. map_of dir f = Some c \<and> c \<noteq> Subdirectory" by blast
  qed
  from remove_loop_ok[OF distinct_glob_star pre]
  obtain dir' where r: "remove_loop has_policy (glob_star dir) dir = (dir', None)"
    and m: "\<forall>f. map_of dir' f =
            (if f \<in> set (glob_star dir) \<and> \<not> (has_policy \<and> f = POLICY_IMAGE) then None else map_of dir f)"
    by blast
  have "map_of dir' f = (if hidden f \<or> (has_policy \<and> f = POLICY_IMAGE) then map_of dir f else None)" for f
  proof (cases "f \<in> fst ` set dir")
    case True
    then show ?thesis using m by (auto simp: set_glob_star)
  next
    case False
    then have "map_of dir f = None" by (simp add: map_of_eq_None_iff)
    then show ?thesis using m by auto
  qed
  with r show ?thesis by blast
qed

lemma not_hidden_names:
  "\<not> hidden POLICY_IMAGE" "\<not> hidden LABEL_FILE" "\<not> hidden ASSIGNMENTS_FILE"
  "\<not> hidden (data_file_name ts)"
  by (simp_all add: hidden_def POLICY_IMAGE_def LABEL_FILE_def ASSIGNMENTS_FILE_def data_file_name_def)

lemma names_not_policy:
  "LABEL_FILE \<noteq> POLICY_IMAGE" "ASSIGNMENTS_FILE \<noteq> POLICY_IMAGE" "data_file_name ts \<noteq> POLICY_IMAGE"
  by (simp_all add: POLICY_IMAGE_def LABEL_FILE_def ASSIGNMENTS_FILE_def data_file_name_def)

lemma clear_all_data_open_fails:
  "map_of (files st) POLICY_IMAGE = Some c \<Longrightarrow> image_open c = Inl e \<Longrightarrow>
   clear_all_data st = (st, Some e)"
  by (simp add: clear_all_data_def Let_def)

text \<open>
  After the first removal the reset is no longer all or nothing: a subdirectory stops the
  loop with the files before it gone, and a policy picture that cannot be written as PNG
  is emptied by the attempt; in both cases the session state is not cleared.
\<close>

lemma clear_all_data_stops_at_subdirectory:
  "clear_all_data subdirectory_state
     = (subdirectory_state\<lparr>files := [(''backup'', Subdirectory),
                                      (''labels.json'', LabelsJson example_ledger)]\<rparr>,
        Some OSError)"
  by (simp add: clear_all_data_def subdirectory_state_def Let_def POLICY_IMAGE_def glob_star_def
      hidden_def os_remove_def AList.delete_eq)

lemma clear_all_data_save_fails:
  "clear_all_data cmyk_policy_state
     = (cmyk_policy_state\<lparr>files := [(''policy_image.png'', RawBytes [])]\<rparr>, Some OSError)"
  by (simp add: clear_all_data_def cmyk_policy_state_def Let_def POLICY_IMAGE_def glob_star_def
      hidden_def os_remove_def AList.delete_eq image_open_def image_save_def)

subsection \<open>The labeling loop\<close>

lemma all_data_set_label: "all_data (set_label idx lab usr now st) = all_data st"
  by (simp add: set_label_def Let_def)

lemma py_index_error: "py_index xs i = Inl e \<Longrightarrow> e = IndexError \<and> (int (length xs) \<le> i \<or> i < - int (length xs))"
  by (auto simp: py_index_def split: if_splits)

lemma labeler_loop_skips:
  "labeler_loop selectbox usr now xs st shown = (st', shown', err) \<Longrightarrow>
   all_data st' = all_data st
   \<and> (\<forall>idx. int (length (all_data st)) \<le> idx \<longrightarrow> labels st' (str_int idx) = labels st (str_int idx))
   \<and> set shown' \<subseteq> set shown \<union>
        {(i, item). i \<in> set xs \<and> i < int (length (all_data st)) \<and> py_index (all_data st) i = Inr item}
   \<and> (err = None \<or> err = Some IndexError \<and> (\<exists>i \<in> set xs. i < - int (length (all_data st))))"
proof (induction xs arbitrary: st shown)
  case Nil
  then show ?case by auto
next
  case (Cons i xs)
  show ?case
  proof (cases "i < int (length (all_data st))")
    case False
    with Cons.prems have "labeler_loop selectbox usr now xs st shown = (st', shown', err)"
      by simp
    from Cons.IH[OF this] show ?thesis by auto
  next
    case True
    show ?thesis
    proof (cases "py_index (all_data st) i")
      case (Inl e)
      with True Cons.prems have res: "st' = st" "shown' = shown" "err = Some e" by simp_all
      from py_index_error[OF Inl] True have "e = IndexError" "i < - int (length (all_data st))"
        by auto
      with res show ?thesis by auto
    next
      case (Inr item)
      let ?st = "set_label i (selectbox i) usr now st"
      from True Inr Cons.prems
      have "labeler_loop selectbox usr now xs ?st (shown @ [(i, item)]) = (st', shown', err)"
        by simp
      from Cons.IH[OF this]
      have ih: "all_data st' = all_data st"
        "\<forall>idx. int (length (all_data st)) \<le> idx \<longrightarrow> labels st' (str_int idx) = labels ?st (str_int idx)"
        "set shown' \<subseteq> set (shown @ [(i, item)]) \<union>
          {(j, it). j \<in> set xs \<and> j < int (length (all_data st)) \<and> py_index (all_data st) j = Inr it}"
        "err = None \<or> err = Some IndexError \<and> (\<exists>j \<in> set xs. j < - int (length (all_data st)))"
        by (simp_all add: all_data_set_label)
      have keep: "labels ?st (str_int idx) = labels st (str_int idx)"
        if "int (length (all_data st)) \<le> idx" for idx
        using that True by (intro labels_set_label_other) simp
      from ih(2) keep
      have a: "\<forall>idx. int (length (all_data st)) \<le> idx \<longrightarrow> labels st' (str_int idx) = labels st (str_int idx)"
        by simp
      from ih(3) True Inr
      have b: "set shown' \<subseteq> set shown \<union>
        {(j, it). j \<in> set (i # xs) \<and> j < int (length (all_data st)) \<and> py_index (all_data st) j = Inr it}"
        by auto
      from ih(4)
      have c: "err = None \<or> err = Some IndexError \<and> (\<exists>j \<in> set (i # xs). j < - int (length (all_data st)))"
        by auto
      from ih(1) a b c show ?thesis by blast
    qed
  qed
qed

lemma show_info_popup_no_error: "show_info_popup lbls usr xs \<noteq> Inl e"
  by (simp add: show_info_popup_eq)

lemma stale_interface_run:
  "labeler_interface (\<lambda>idx. label_policy) ''user_1'' ''2024-01-01 10:00:00'' stale_state
     = (set_label 0 label_policy ''user_1'' ''2024-01-01 10:00:00'' stale_state,
        [(0, \<lparr>instruction = ''What is zoning?'', output_text = ''A land use rule.''\<rparr>)], None)"
  by (simp add: labeler_interface_def stale_state_def init_state_def one_sample_def
      show_info_popup_eq py_index_def all_data_set_label)

section \<open>The claims\<close>

text \<open>
  Claim C1. For \<open>total_samples \<ge> 0\<close> and \<open>num_users \<ge> 1\<close>, \<open>assign_data\<close> creates the keys
  \<open>user_1\<close>, ..., \<open>user_n\<close> in this order, all different; labeler \<open>k < n\<close> receives the
  block of \<open>base = total_samples div num_users\<close> consecutive indices that starts at
  \<open>(k - 1) * base\<close>; the last labeler receives the indices from \<open>(n - 1) * base\<close> up to
  \<open>total_samples - 1\<close>, which are \<open>base + total_samples mod num_users\<close> many; the blocks
  in labeler order, put end to end, are the list \<open>0, ..., total_samples - 1\<close>, so that every
  index occurs exactly once. For 10 samples and 3 labelers the result is \<open>[0,1,2]\<close>,
  \<open>[3,4,5]\<close>, \<open>[6,7,8,9]\<close>.
\<close>

theorem assign_data_partition:
  assumes "0 \<le> total_samples" and "1 \<le> num_users"
  shows "(let base = total_samples div num_users;
              asg = assign_data total_samples num_users
          in map fst asg = map user_key [1..num_users]
           \<and> distinct (map fst asg)
           \<and> (\<forall>k. 1 \<le> k \<and> k < num_users \<longrightarrow>
                  map_of asg (user_key k) = Some [(k - 1) * base..(k - 1) * base + base - 1]
                  \<and> int (length [(k - 1) * base..(k - 1) * base + base - 1]) = base)
           \<and> map_of asg (user_key num_users) = Some [(num_users - 1) * base..total_samples - 1]
           \<and> int (length [(num_users - 1) * base..total_samples - 1])
                 = base + total_samples mod num_users
           \<and> concat (map snd asg) = [0..total_samples - 1]
           \<and> distinct (concat (map snd asg))
           \<and> set (concat (map snd asg)) = {0..total_samples - 1})
         \<and> assign_data 10 3
               = [(''user_1'', [0, 1, 2]), (''user_2'', [3, 4, 5]), (''user_3'', [6, 7, 8, 9])]"
proof -
  let ?t = total_samples and ?n = num_users
  let ?b = "?t div ?n"
  let ?f = "\<lambda>j. py_range (j * ?b) (if j < ?n - 1 then j * ?b + ?b else ?t)"
  let ?g = "\<lambda>j. user_key (j + 1)"
  let ?a = "assign_data ?t ?n"
  have a: "?a = map (\<lambda>j. (?g j, ?f j)) [0..?n - 1]"
    by (rule assign_data_eq)
  have b0: "0 \<le> ?b" by (rule last_block_bounds(1)[OF assms])
  have keys: "map fst ?a = map user_key [1..?n]"
  proof -
    have "map fst ?a = map user_key (map (\<lambda>j. j + 1) [0..?n - 1])"
      by (simp add: a comp_def)
    then show ?thesis by (simp add: map_Suc_upto)
  qed
  have dist: "distinct (map fst ?a)"
    unfolding keys by (simp add: distinct_map inj_on_def user_key_inj)
  have inj_g: "inj ?g"
    by (rule injI) (auto dest: user_key_inj)
  have look: "map_of ?a (user_key (j + 1)) = Some (?f j)" if "0 \<le> j" "j \<le> ?n - 1" for j
    unfolding a using that by (intro map_of_keyed[OF inj_g, of j _ ?f]) simp
  have mid: "map_of ?a (user_key k) = Some [(k - 1) * ?b..(k - 1) * ?b + ?b - 1]
       \<and> int (length [(k - 1) * ?b..(k - 1) * ?b + ?b - 1]) = ?b" if "1 \<le> k" "k < ?n" for k
    using look[of "k - 1"] that b0 by (simp add: py_range_def)
  have lst: "map_of ?a (user_key ?n) = Some [(?n - 1) * ?b..?t - 1]"
    using look[of "?n - 1"] assms(2) by (simp add: py_range_def)
  have len: "int (length [(?n - 1) * ?b..?t - 1]) = ?b + ?t mod ?n"
    using last_block_bounds[OF assms] by simp
  have cat: "concat (map snd ?a) = [0..?t - 1]"
    by (rule concat_assign_data[OF assms])
  have ex: "assign_data 10 3
      = [(''user_1'', [0, 1, 2]), (''user_2'', [3, 4, 5]), (''user_3'', [6, 7, 8, 9])]"
    by code_simp
  have dcat: "distinct (concat (map snd ?a))" and scat: "set (concat (map snd ?a)) = {0..?t - 1}"
    by (simp_all add: cat)
  from mid have mid': "\<forall>k. 1 \<le> k \<and> k < ?n \<longrightarrow>
      map_of ?a (user_key k) = Some [(k - 1) * ?b..(k - 1) * ?b + ?b - 1]
      \<and> int (length [(k - 1) * ?b..(k - 1) * ?b + ?b - 1]) = ?b"
    by blast
  show ?thesis
    unfolding Let_def by (intro conjI keys dist mid' lst len cat dcat scat ex)
qed

theorem assign_data_partition_witness:
  "(0::int) \<le> 7 \<and> (1::int) \<le> 2
   \<and> map_of (assign_data 7 2) (user_key 1) = Some [0..2]
   \<and> map_of (assign_data 7 2) (user_key 2) = Some [3..6]
   \<and> concat (map snd (assign_data 7 2)) = [0..6]"
proof -
  have h1: "(0::int) \<le> 7" and h2: "(1::int) \<le> 2" by simp_all
  have d: "(7::int) div 2 = 3" by simp
  from assign_data_partition[OF h1 h2]
  have all: "\<forall>k. 1 \<le> k \<and> k < (2::int) \<longrightarrow>
          map_of (assign_data 7 2) (user_key k) = Some [(k - 1) * 3..(k - 1) * 3 + 3 - 1]
          \<and> int (length [(k - 1) * 3..(k - 1) * 3 + 3 - 1]) = 3"
    and lst: "map_of (assign_data 7 2) (user_key 2) = Some [(2 - 1) * 3..7 - 1]"
    and cat: "concat (map snd (assign_data 7 2)) = [0..7 - 1]"
    unfolding Let_def d by blast+
  from all have "map_of (assign_data 7 2) (user_key 1) = Some [(1 - 1) * 3..(1 - 1) * 3 + 3 - 1]"
    by simp
  with lst cat show ?thesis by simp
qed

text \<open>
  Claim C2. Setting the label of an index to a value other than the sentinel leaves an
  entry with that label; setting it to the sentinel afterwards removes the entry: the
  ledger is the original one without the key of the index. From a ledger without an entry
  for the index the round trip is absent, present (with the chosen label, the labeler and
  the time), absent, and the ledger is the original one again. Setting an index without an
  entry to the sentinel changes nothing, neither in the session nor on disk.
\<close>

theorem set_then_unset_round_trip:
  assumes "lab \<noteq> label_unset"
  shows "(\<exists>e. labels (set_label idx lab usr now st) (str_int idx) = Some e \<and> label e = lab)
       \<and> labels (set_label idx label_unset usr' now' (set_label idx lab usr now st)) (str_int idx) = None
       \<and> labels (set_label idx label_unset usr' now' (set_label idx lab usr now st))
             = (labels st)(str_int idx := None)
       \<and> (labels st (str_int idx) = None \<longrightarrow>
             labels (set_label idx lab usr now st) (str_int idx)
               = Some \<lparr>label = lab, user = usr, timestamp = now\<rparr>
             \<and> labels (set_label idx label_unset usr' now' (set_label idx lab usr now st)) = labels st)
       \<and> (labels st (str_int idx) = None \<longrightarrow> set_label idx label_unset usr' now' st = st)"
proof -
  let ?k = "str_int idx"
  let ?st1 = "set_label idx lab usr now st"
  let ?st2 = "set_label idx label_unset usr' now' ?st1"
  from set_label_present[OF assms, of idx usr now st]
  obtain e where e: "labels ?st1 ?k = Some e" "label e = lab" by blast
  then have ex: "existing_label_of (labels ?st1) idx = lab"
    by (simp add: existing_label_of_def)
  with assms have l2: "labels ?st2 = (labels ?st1)(?k := None)"
    by (auto simp: labels_set_label)
  have l1: "(labels ?st1)(?k := None) = (labels st)(?k := None)"
    by (auto simp: labels_set_label)
  have full: "labels ?st2 = (labels st)(?k := None)"
    using l2 l1 by simp
  have absent: "labels ?st2 ?k = None"
    by (simp add: full)
  have fresh: "labels ?st1 ?k = Some \<lparr>label = lab, user = usr, timestamp = now\<rparr> \<and> labels ?st2 = labels st"
    if "labels st ?k = None"
  proof -
    from that assms have "labels ?st1 ?k = Some \<lparr>label = lab, user = usr, timestamp = now\<rparr>"
      by (simp add: labels_set_label existing_label_of_def)
    moreover from that have "(labels st)(?k := None) = labels st"
      by (simp add: fun_upd_idem)
    ultimately show ?thesis using full by simp
  qed
  have idem: "set_label idx label_unset usr' now' st = st" if "labels st ?k = None"
    using that by (intro set_label_same) (simp add: existing_label_of_def)
  from e have pres: "\<exists>e. labels ?st1 ?k = Some e \<and> label e = lab" by blast
  show ?thesis
    using pres absent full fresh idem by blast
qed

theorem set_then_unset_round_trip_witness:
  "label_policy \<noteq> label_unset
   \<and> labels init_state (str_int 4) = None
   \<and> labels (set_label 4 label_policy ''user_1'' ''2024-01-01 10:00:00'' init_state) (str_int 4)
       = Some \<lparr>label = label_policy, user = ''user_1'', timestamp = ''2024-01-01 10:00:00''\<rparr>
   \<and> labels (set_label 4 label_unset ''user_1'' ''2024-01-01 10:00:05''
               (set_label 4 label_policy ''user_1'' ''2024-01-01 10:00:00'' init_state)) (str_int 4)
       = None
   \<and> set_label 4 label_unset ''user_1'' ''2024-01-01 10:00:05'' init_state = init_state"
proof -
  have h: "label_policy \<noteq> label_unset"
    by (simp add: label_policy_def label_unset_def)
  have a: "labels init_state (str_int 4) = None"
    by (simp add: init_state_def)
  from set_then_unset_round_trip[OF h, of 4 "''user_1''" "''2024-01-01 10:00:00''" init_state
      "''user_1''" "''2024-01-01 10:00:05''"] a h
  show ?thesis by blast
qed

text \<open>
  Claim C3, as stated, against the code: the write of lines 312-324 is guarded by
  \<open>label != existing_label\<close>. When \<open>user_2\<close> submits, at a later time, the label that
  sample 0 already carries, the entry keeps the labeler and the time of \<open>user_1\<close>.
\<close>

theorem set_label_same_label_counterexample:
  "label_policy \<noteq> label_unset
   \<and> labels (set_label 0 label_policy ''user_2'' ''2024-01-02 09:30:00'' relabel_state) (str_int 0)
       = Some \<lparr>label = label_policy, user = ''user_1'', timestamp = ''2024-01-01 10:00:00''\<rparr>
   \<and> labels (set_label 0 label_policy ''user_2'' ''2024-01-02 09:30:00'' relabel_state) (str_int 0)
       \<noteq> Some \<lparr>label = label_policy, user = ''user_2'', timestamp = ''2024-01-02 09:30:00''\<rparr>"
  by (simp add: labels_set_label existing_label_of_def relabel_state_def label_policy_set)

text \<open>
  Claim C3, amended. For a label other than the sentinel: when it differs from the label
  currently shown for the index (the sentinel when there is no entry), the entry of the
  index becomes label, labeler and time of this action, whoever wrote the previous entry,
  every other entry is kept, and the ledger is saved to \<open>labels.json\<close>; when it is the label
  already stored, nothing changes. A second action on the same index with a different
  label therefore replaces label, labeler and time together.
\<close>

theorem set_label_overwrites_changed:
  "lab \<noteq> label_unset \<longrightarrow>
     (lab \<noteq> existing_label_of (labels st) idx \<longrightarrow>
        labels (set_label idx lab usr now st)
          = (labels st)(str_int idx \<mapsto> \<lparr>label = lab, user = usr, timestamp = now\<rparr>)
        \<and> map_of (files (set_label idx lab usr now st)) LABEL_FILE
          = Some (LabelsJson (labels (set_label idx lab usr now st))))
     \<and> (lab = existing_label_of (labels st) idx \<longrightarrow> set_label idx lab usr now st = st)
     \<and> (\<forall>lab' usr' now'. lab' \<noteq> label_unset \<and> lab' \<noteq> lab \<longrightarrow>
          labels (set_label idx lab' usr' now' (set_label idx lab usr now st)) (str_int idx)
            = Some \<lparr>label = lab', user = usr', timestamp = now'\<rparr>)"
proof (intro impI conjI allI)
  assume set: "lab \<noteq> label_unset"
  {
    assume ch: "lab \<noteq> existing_label_of (labels st) idx"
    show "labels (set_label idx lab usr now st)
          = (labels st)(str_int idx \<mapsto> \<lparr>label = lab, user = usr, timestamp = now\<rparr>)"
      using ch set by (simp add: labels_set_label)
    show "map_of (files (set_label idx lab usr now st)) LABEL_FILE
          = Some (LabelsJson (labels (set_label idx lab usr now st)))"
      using ch set by (simp add: set_label_write save_data_def update_conv')
  }
  {
    assume "lab = existing_label_of (labels st) idx"
    then show "set_label idx lab usr now st = st" by (rule set_label_same)
  }
  {
    fix lab' usr' now'
    assume other: "lab' \<noteq> label_unset \<and> lab' \<noteq> lab"
    from set_label_present[OF set, of idx usr now st]
    obtain e where "labels (set_label idx lab usr now st) (str_int idx) = Some e" "label e = lab"
      by blast
    then have "existing_label_of (labels (set_label idx lab usr now st)) idx = lab"
      by (simp add: existing_label_of_def)
    with other show "labels (set_label idx lab' usr' now' (set_label idx lab usr now st)) (str_int idx)
            = Some \<lparr>label = lab', user = usr', timestamp = now'\<rparr>"
      by (simp add: labels_set_label[of idx lab'])
  }
qed

theorem set_label_overwrites_changed_witness:
  "label_x \<noteq> label_unset
   \<and> label_x \<noteq> existing_label_of (labels relabel_state) 0
   \<and> labels (set_label 0 label_x ''user_2'' ''2024-01-02 09:30:00'' relabel_state) (str_int 0)
       = Some \<lparr>label = label_x, user = ''user_2'', timestamp = ''2024-01-02 09:30:00''\<rparr>
   \<and> label_policy = existing_label_of (labels relabel_state) 0
   \<and> set_label 0 label_policy ''user_2'' ''2024-01-02 09:30:00'' relabel_state = relabel_state"
proof -
  have a: "label_x \<noteq> label_unset" and b: "label_policy \<noteq> label_unset"
    by (simp_all add: label_x_def label_policy_def label_unset_def)
  have ex: "existing_label_of (labels relabel_state) 0 = label_policy"
    by (simp add: existing_label_of_def relabel_state_def)
  have c: "label_x \<noteq> existing_label_of (labels relabel_state) 0"
    by (simp add: ex label_x_def label_policy_def)
  from set_label_overwrites_changed[of label_x relabel_state 0 "''user_2''" "''2024-01-02 09:30:00''"] a c
  have "labels (set_label 0 label_x ''user_2'' ''2024-01-02 09:30:00'' relabel_state)
          = (labels relabel_state)(str_int 0 \<mapsto>
              \<lparr>label = label_x, user = ''user_2'', timestamp = ''2024-01-02 09:30:00''\<rparr>)"
    by blast
  moreover
  from set_label_overwrites_changed[of label_policy relabel_state 0 "''user_2''" "''2024-01-02 09:30:00''"]
    b ex
  have "set_label 0 label_policy ''user_2'' ''2024-01-02 09:30:00'' relabel_state = relabel_state"
    by simp
  ultimately show ?thesis using a c ex by simp
qed

text \<open>
  Claim C6. In every state reached from an empty ledger by labeling actions, an index has
  an entry exactly when the most recent action on it chose a label other than the
  sentinel; no stored entry has the sentinel as its label; and one more action, whatever
  it is, keeps both: the ledger still stores no sentinel, and the index acted on has an
  entry exactly when the chosen label is not the sentinel.
\<close>

theorem ledger_entry_iff_last_choice_set:
  assumes "labels st0 = Map.empty"
  shows "(\<forall>idx. (labels (run_actions acts st0) (str_int idx) \<noteq> None)
              = (\<exists>l. last_choice idx acts = Some l \<and> l \<noteq> label_unset))
       \<and> (\<forall>k e. labels (run_actions acts st0) k = Some e \<longrightarrow> label e \<noteq> label_unset)
       \<and> (\<forall>idx lab usr now.
             ledger_inv (labels (set_label idx lab usr now (run_actions acts st0)))
             \<and> (labels (set_label idx lab usr now (run_actions acts st0)) (str_int idx) \<noteq> None)
                 = (lab \<noteq> label_unset))"
proof -
  have inv0: "ledger_inv (labels st0)"
    using assms by (simp add: ledger_inv_def)
  have inv: "ledger_inv (labels (run_actions acts st0))"
    using inv0 by (rule ledger_inv_run)
  have "(labels (run_actions acts st0) (str_int idx) \<noteq> None)
          = (\<exists>l. last_choice idx acts = Some l \<and> l \<noteq> label_unset)" for idx
    using run_actions_present[OF inv0, of acts idx] assms
    by (cases "last_choice idx acts") simp_all
  moreover have "\<forall>k e. labels (run_actions acts st0) k = Some e \<longrightarrow> label e \<noteq> label_unset"
    using inv by (simp add: ledger_inv_def)
  moreover have "ledger_inv (labels (set_label idx lab usr now (run_actions acts st0)))
      \<and> (labels (set_label idx lab usr now (run_actions acts st0)) (str_int idx) \<noteq> None)
          = (lab \<noteq> label_unset)" for idx lab usr now
    using ledger_inv_set_label[OF inv] set_label_present_iff[OF inv] by blast
  ultimately show ?thesis by blast
qed

theorem ledger_entry_iff_last_choice_set_witness:
  "labels init_state = Map.empty
   \<and> labels (run_actions example_actions init_state) (str_int 0) = None
   \<and> labels (run_actions example_actions init_state) (str_int 1) \<noteq> None
   \<and> labels (run_actions example_actions init_state) (str_int 2) = None"
proof -
  have h: "labels init_state = Map.empty"
    by (simp add: init_state_def)
  have l0: "last_choice 0 example_actions = Some label_unset"
    and l1: "last_choice 1 example_actions = Some label_x"
    and l2: "last_choice 2 example_actions = None"
    by (simp_all add: example_actions_def)
  have x: "label_x \<noteq> label_unset"
    by (simp add: label_x_def label_unset_def)
  from ledger_entry_iff_last_choice_set[OF h, of example_actions]
  have iff: "(labels (run_actions example_actions init_state) (str_int idx) \<noteq> None)
              = (\<exists>l. last_choice idx example_actions = Some l \<and> l \<noteq> label_unset)" for idx
    by blast
  from iff[of 0] iff[of 1] iff[of 2] l0 l1 l2 x h show ?thesis by simp
qed

text \<open>
  Claim C5. A ledger, as the data model has it and as the code builds it, stores no entry
  whose label is the sentinel (\<open>ledger_inv\<close>; lines 313-323 never write one). On every such
  ledger, and so on every ledger reached from an empty one by labeling actions,
  \<open>completed\<close> is the number of indices of the assigned sequence that have an entry in the
  ledger, and \<open>total\<close>, as displayed next to it, is the length of that sequence.
\<close>

theorem calculate_progress_counts_entries:
  "(ledger_inv lbls \<longrightarrow>
      calculate_progress lbls usr assigned_indices
        = int (length (filter (\<lambda>idx. lbls (str_int idx) \<noteq> None) assigned_indices))
      \<and> (\<exists>ratio. show_info_popup lbls usr assigned_indices
            = Inr (calculate_progress lbls usr assigned_indices, int (length assigned_indices), ratio)))
   \<and> (labels st0 = Map.empty \<longrightarrow>
      calculate_progress (labels (run_actions acts st0)) usr assigned_indices
        = int (length (filter (\<lambda>idx. labels (run_actions acts st0) (str_int idx) \<noteq> None)
                 assigned_indices))
      \<and> (\<exists>ratio. show_info_popup (labels (run_actions acts st0)) usr assigned_indices
            = Inr (calculate_progress (labels (run_actions acts st0)) usr assigned_indices,
                   int (length assigned_indices), ratio)))"
proof -
  have count: "calculate_progress l usr assigned_indices
        = int (length (filter (\<lambda>idx. l (str_int idx) \<noteq> None) assigned_indices))"
    if "ledger_inv l" for l
  proof -
    have "filter (has_label l) assigned_indices
        = filter (\<lambda>idx. l (str_int idx) \<noteq> None) assigned_indices"
      by (rule filter_cong) (simp_all add: has_label_inv[OF that])
    then show ?thesis
      by (simp add: calculate_progress_def calculate_progress_loop_eq)
  qed
  have total: "\<exists>ratio. show_info_popup l usr assigned_indices
            = Inr (calculate_progress l usr assigned_indices, int (length assigned_indices), ratio)"
    for l
    by (simp add: show_info_popup_eq)
  have reach: "ledger_inv (labels (run_actions acts st0))" if "labels st0 = Map.empty"
    using that by (intro ledger_inv_run) (simp add: ledger_inv_empty)
  from count total reach show ?thesis by blast
qed

theorem calculate_progress_counts_entries_witness:
  "labels init_state = Map.empty
   \<and> calculate_progress (labels (run_actions example_actions init_state)) ''user_2'' [0, 1, 2]
       = int (length (filter (\<lambda>idx. labels (run_actions example_actions init_state) (str_int idx) \<noteq> None)
                [0, 1, 2]))
   \<and> ledger_inv example_ledger
   \<and> calculate_progress example_ledger ''user_1'' [0, 1, 2]
       = int (length (filter (\<lambda>idx. example_ledger (str_int idx) \<noteq> None) [0, 1, 2]))
   \<and> calculate_progress example_ledger ''user_1'' [0, 1, 2] = 2"
proof -
  have h: "labels init_state = Map.empty"
    by (simp add: init_state_def)
  have ne: "str_int 0 \<noteq> str_int 2" "str_int 2 \<noteq> str_int 0" "str_int 1 \<noteq> str_int 0" "str_int 1 \<noteq> str_int 2"
    using str_int_inj[of 0 2] str_int_inj[of 1 0] str_int_inj[of 1 2] by auto
  have inv: "ledger_inv example_ledger"
    by (auto simp: ledger_inv_def example_ledger_def label_policy_set label_x_set split: if_splits)
  from calculate_progress_counts_entries[of example_ledger "''user_1''" "[0, 1, 2]" init_state "[]"] inv
  have eq: "calculate_progress example_ledger ''user_1'' [0, 1, 2]
       = int (length (filter (\<lambda>idx. example_ledger (str_int idx) \<noteq> None) [0, 1, 2]))"
    by blast
  from calculate_progress_counts_entries[of example_ledger "''user_2''" "[0, 1, 2]" init_state example_actions] h
  have reach: "calculate_progress (labels (run_actions example_actions init_state)) ''user_2'' [0, 1, 2]
       = int (length (filter (\<lambda>idx. labels (run_actions example_actions init_state) (str_int idx) \<noteq> None)
                [0, 1, 2]))"
    by blast
  have "int (length (filter (\<lambda>idx. example_ledger (str_int idx) \<noteq> None) [0, 1, 2])) = 2"
    using ne by (simp add: example_ledger_def)
  with h inv eq reach show ?thesis by simp
qed

text \<open>
  Claim C4. For an empty assignment the count is 0 and the side bar of the labeler, which
  guards the division (line 212), shows 0 of 0 with ratio 0. The progress section of the
  host (line 193) divides without a guard: with one sample distributed over two labelers
  and one label stored, it raises \<open>ZeroDivisionError\<close> at \<open>user_1\<close>, before anything is written.
\<close>

theorem host_progress_divides_by_zero:
  "user_assignments host_failing_state = [(''user_1'', []), (''user_2'', [0])]
   \<and> calculate_progress (labels host_failing_state) ''user_1'' [] = 0
   \<and> show_info_popup (labels host_failing_state) ''user_1'' [] = Inr (0, 0, 0)
   \<and> host_progress host_failing_state = ([], Some ZeroDivisionError)"
proof -
  have asg: "assign_data 1 2 = [(''user_1'', []), (''user_2'', [0])]"
    by code_simp
  have a: "user_assignments host_failing_state = [(''user_1'', []), (''user_2'', [0])]"
    by (simp add: host_failing_state_def asg)
  have b: "calculate_progress (labels host_failing_state) ''user_1'' [] = 0"
    by (simp add: calculate_progress_def)
  have c: "show_info_popup (labels host_failing_state) ''user_1'' [] = Inr (0, 0, 0)"
    by (simp add: show_info_popup_eq b)
  have ne: "labels host_failing_state \<noteq> Map.empty"
    by (simp add: host_failing_state_def)
  have d: "host_progress host_failing_state = ([], Some ZeroDivisionError)"
    using ne by (simp add: host_progress_def a py_truediv_def calculate_progress_def)
  from a b c d show ?thesis by simp
qed






text \<open>
  Claim C9, as stated, against the code: the reset opens the policy file before it removes
  anything (line 68). When the file under the policy name is not an image, which line 137
  allows, the reset raises there: no file is removed and the session keeps samples,
  assignments and labels.
\<close>

theorem reset_broken_policy_counterexample:
  "map_of (files broken_policy_state) POLICY_IMAGE = Some (RawBytes ''not an image'')
   \<and> clear_all_data broken_policy_state = (broken_policy_state, Some UnidentifiedImageError)
   \<and> all_data (fst (clear_all_data broken_policy_state)) = one_sample
   \<and> labels (fst (clear_all_data broken_policy_state)) = example_ledger
   \<and> map_of (files (fst (clear_all_data broken_policy_state))) LABEL_FILE
       = Some (LabelsJson example_ledger)"
proof -
  have p: "map_of (files broken_policy_state) POLICY_IMAGE = Some (RawBytes ''not an image'')"
    by (simp add: broken_policy_state_def POLICY_IMAGE_def)
  have r: "clear_all_data broken_policy_state = (broken_policy_state, Some UnidentifiedImageError)"
    by (rule clear_all_data_open_fails[OF p]) (simp add: image_open_def)
  show ?thesis
    by (simp add: r p) (simp add: broken_policy_state_def LABEL_FILE_def)
qed

text \<open>
  Claim C9, amended. Let the data directory list no subdirectory, and let the file under
  the policy name, if there is one, be an image that can be loaded and written as PNG.
  Then the reset ends without an exception; sample store, assignment map and ledger of the
  session are empty afterwards; the policy picture of the session is untouched; the policy
  file has the content it had and \<open>get_policy_image\<close> opens from the directory what it
  opened before; every other file that the pattern \<open>*\<close> lists is gone, in particular
  \<open>labels.json\<close>, \<open>assignments.json\<close> and every \<open>data_<timestamp>.json\<close>. Files whose name
  begins with a dot are not listed by the pattern and stay.
\<close>

theorem reset_keeps_only_policy_image:
  assumes "\<forall>f. \<not> hidden f \<longrightarrow> map_of (files st) f \<noteq> Some Subdirectory"
    and "map_of (files st) POLICY_IMAGE = None
           \<or> (\<exists>p. map_of (files st) POLICY_IMAGE
                    = Some (PictureFile \<lparr>pixels = p, data_complete = True, png_mode = True\<rparr>))"
  shows "\<exists>st'. clear_all_data st = (st', None)
           \<and> all_data st' = [] \<and> user_assignments st' = [] \<and> labels st' = Map.empty
           \<and> policy_image st' = policy_image st
           \<and> map_of (files st') POLICY_IMAGE = map_of (files st) POLICY_IMAGE
           \<and> get_policy_image (files st') = get_policy_image (files st)
           \<and> (\<forall>f. f \<noteq> POLICY_IMAGE \<and> \<not> hidden f \<longrightarrow> map_of (files st') f = None)
           \<and> map_of (files st') LABEL_FILE = None
           \<and> map_of (files st') ASSIGNMENTS_FILE = None
           \<and> (\<forall>ts. map_of (files st') (data_file_name ts) = None)
           \<and> (\<forall>f. hidden f \<longrightarrow> map_of (files st') f = map_of (files st) f)"
proof -
  let ?dir = "files st"
  let ?hp = "map_of ?dir POLICY_IMAGE \<noteq> None"
  have nosub: "\<forall>f. \<not> hidden f \<and> \<not> (?hp \<and> f = POLICY_IMAGE) \<longrightarrow> map_of ?dir f \<noteq> Some Subdirectory"
    using assms(1) by blast
  from remove_listed_ok[OF nosub]
  obtain dir1 where rm: "remove_loop ?hp (glob_star ?dir) ?dir = (dir1, None)"
    and m1: "\<forall>f. map_of dir1 f = (if hidden f \<or> (?hp \<and> f = POLICY_IMAGE) then map_of ?dir f else None)"
    by blast
  obtain st' where r: "clear_all_data st = (st', None)"
    and mem: "all_data st' = []" "user_assignments st' = []" "labels st' = Map.empty"
      "policy_image st' = policy_image st"
    and dir: "\<And>f. map_of (files st') f = (if hidden f \<or> f = POLICY_IMAGE then map_of ?dir f else None)"
  proof -
    from assms(2) show ?thesis
    proof
      assume n: "map_of ?dir POLICY_IMAGE = None"
      let ?st' = "st\<lparr>all_data := [], user_assignments := [], labels := Map.empty, files := dir1\<rparr>"
      have "clear_all_data st = (?st', None)"
        using n rm by (simp add: clear_all_data_def Let_def)
      moreover have "map_of (files ?st') f = (if hidden f \<or> f = POLICY_IMAGE then map_of ?dir f else None)" for f
        using m1 n by simp
      ultimately show ?thesis by (intro that[of ?st']) simp_all
    next
      assume "\<exists>p. map_of ?dir POLICY_IMAGE
                    = Some (PictureFile \<lparr>pixels = p, data_complete = True, png_mode = True\<rparr>)"
      then obtain p where p: "map_of ?dir POLICY_IMAGE
            = Some (PictureFile \<lparr>pixels = p, data_complete = True, png_mode = True\<rparr>)" by blast
      let ?img = "\<lparr>pixels = p, data_complete = True, png_mode = True\<rparr>"
      let ?dir2 = "AList.update POLICY_IMAGE (PictureFile ?img) dir1"
      let ?st' = "st\<lparr>all_data := [], user_assignments := [], labels := Map.empty, files := ?dir2\<rparr>"
      have sv: "image_save ?img POLICY_IMAGE dir1 = (?dir2, None)"
        by (simp add: image_save_def)
      have "clear_all_data st = (?st', None)"
        using p rm sv by (simp add: clear_all_data_def Let_def image_open_def)
      moreover have "map_of (files ?st') f = (if hidden f \<or> f = POLICY_IMAGE then map_of ?dir f else None)" for f
        using m1 p by (simp add: update_conv' not_hidden_names)
      ultimately show ?thesis by (intro that[of ?st']) simp_all
    qed
  qed
  have pol: "map_of (files st') POLICY_IMAGE = map_of ?dir POLICY_IMAGE"
    by (simp add: dir)
  have load: "get_policy_image (files st') = get_policy_image ?dir"
    by (simp add: get_policy_image_def pol)
  have gone: "\<forall>f. f \<noteq> POLICY_IMAGE \<and> \<not> hidden f \<longrightarrow> map_of (files st') f = None"
    by (simp add: dir)
  have l: "map_of (files st') LABEL_FILE = None"
    and a: "map_of (files st') ASSIGNMENTS_FILE = None"
    and d: "\<forall>ts. map_of (files st') (data_file_name ts) = None"
    by (simp_all add: dir not_hidden_names names_not_policy)
  have hid: "\<forall>f. hidden f \<longrightarrow> map_of (files st') f = map_of ?dir f"
    by (simp add: dir)
  from r mem pol load gone l a d hid show ?thesis by blast
qed


theorem reset_keeps_only_policy_image_witness:
  "map_of (files used_state) ''labels.json'' \<noteq> Some Subdirectory
   \<and> (map_of (files used_state) POLICY_IMAGE = None
      \<or> (\<exists>p. map_of (files used_state) POLICY_IMAGE
               = Some (PictureFile \<lparr>pixels = p, data_complete = True, png_mode = True\<rparr>)))
   \<and> all_data (fst (clear_all_data used_state)) = []
   \<and> user_assignments (fst (clear_all_data used_state)) = []
   \<and> snd (clear_all_data used_state) = None
   \<and> map_of (files (fst (clear_all_data used_state))) LABEL_FILE = None
   \<and> map_of (files (fst (clear_all_data used_state))) (data_file_name ''20240101_100000'') = None
   \<and> get_policy_image (files (fst (clear_all_data used_state)))
       = Inr (Some \<lparr>pixels = [7, 7, 7], data_complete = True, png_mode = True\<rparr>)"
proof -
  have h1: "\<forall>f. \<not> hidden f \<longrightarrow> map_of (files used_state) f \<noteq> Some Subdirectory"
    by (simp add: used_state_def)
  have p: "map_of (files used_state) POLICY_IMAGE
      = Some (PictureFile \<lparr>pixels = [7, 7, 7], data_complete = True, png_mode = True\<rparr>)"
    by (simp add: used_state_def POLICY_IMAGE_def)
  then have h2: "map_of (files used_state) POLICY_IMAGE = None
      \<or> (\<exists>p. map_of (files used_state) POLICY_IMAGE
               = Some (PictureFile \<lparr>pixels = p, data_complete = True, png_mode = True\<rparr>))"
    by simp
  have g: "get_policy_image (files used_state)
      = Inr (Some \<lparr>pixels = [7, 7, 7], data_complete = True, png_mode = True\<rparr>)"
    by (simp add: get_policy_image_def p image_open_def)
  have h3: "map_of (files used_state) ''labels.json'' \<noteq> Some Subdirectory"
    by (simp add: used_state_def)
  from reset_keeps_only_policy_image[OF h1 h2] g h2 h3 show ?thesis
    by auto
qed

text \<open>
  Claim C10. Whatever the select boxes return, one pass of the labeler interface leaves
  the sample store as it is; an assigned index at or beyond the length of the sample store
  is not looked up or shown, and its ledger entry is neither created nor changed; every
  sample that is shown has an index below the length of the store and is the sample that
  Python's indexing yields there. The only \<open>IndexError\<close> the pass can raise comes from an
  assigned index below minus that length, so it raises none when the assigned indices are
  not negative.
\<close>

theorem stale_indices_are_skipped:
  assumes "labeler_interface selectbox usr now st = (st', shown, err)"
  shows "all_data st' = all_data st
       \<and> (\<forall>idx. int (length (all_data st)) \<le> idx \<longrightarrow>
            labels st' (str_int idx) = labels st (str_int idx) \<and> idx \<notin> fst ` set shown)
       \<and> (\<forall>idx item. (idx, item) \<in> set shown \<longrightarrow>
            idx < int (length (all_data st)) \<and> py_index (all_data st) idx = Inr item)
       \<and> (err = Some IndexError \<longrightarrow>
            (\<exists>assigned_indices i. map_of (user_assignments st) usr = Some assigned_indices
               \<and> i \<in> set assigned_indices \<and> i < - int (length (all_data st))))
       \<and> ((\<forall>assigned_indices. map_of (user_assignments st) usr = Some assigned_indices
               \<longrightarrow> (\<forall>i \<in> set assigned_indices. 0 \<le> i)) \<longrightarrow> err \<noteq> Some IndexError)"
proof -
  let ?n = "int (length (all_data st))"
  have core: "all_data st' = all_data st
     \<and> (\<forall>idx. ?n \<le> idx \<longrightarrow> labels st' (str_int idx) = labels st (str_int idx))
     \<and> set shown \<subseteq> {(i, item). i < ?n \<and> py_index (all_data st) i = Inr item}
     \<and> (err = Some IndexError \<longrightarrow>
            (\<exists>assigned_indices i. map_of (user_assignments st) usr = Some assigned_indices
               \<and> i \<in> set assigned_indices \<and> i < - ?n))"
  proof (cases "all_data st = [] \<or> user_assignments st = [] \<or> usr = []")
    case True
    with assms have "st' = st" "shown = []" "err = None"
      by (auto simp: labeler_interface_def split: if_splits)
    then show ?thesis by simp
  next
    case False
    show ?thesis
    proof (cases "map_of (user_assignments st) usr")
      case None
      with False assms have "st' = st" "shown = []" "err = Some KeyError"
        by (auto simp: labeler_interface_def)
      then show ?thesis by simp
    next
      case (Some xs)
      with False assms have "labeler_loop selectbox usr now xs st [] = (st', shown, err)"
        by (auto simp: labeler_interface_def show_info_popup_eq)
      from labeler_loop_skips[OF this] Some show ?thesis by auto
    qed
  qed
  then have a: "all_data st' = all_data st"
    and b: "\<forall>idx. ?n \<le> idx \<longrightarrow> labels st' (str_int idx) = labels st (str_int idx)"
    and c: "set shown \<subseteq> {(i, item). i < ?n \<and> py_index (all_data st) i = Inr item}"
    and d: "err = Some IndexError \<longrightarrow>
            (\<exists>assigned_indices i. map_of (user_assignments st) usr = Some assigned_indices
               \<and> i \<in> set assigned_indices \<and> i < - ?n)"
    by blast+
  from c have c1: "\<forall>idx. ?n \<le> idx \<longrightarrow> idx \<notin> fst ` set shown"
    by force
  from c have c2: "\<forall>idx item. (idx, item) \<in> set shown \<longrightarrow>
            idx < ?n \<and> py_index (all_data st) idx = Inr item"
    by auto
  from d have e: "(\<forall>assigned_indices. map_of (user_assignments st) usr = Some assigned_indices
               \<longrightarrow> (\<forall>i \<in> set assigned_indices. 0 \<le> i)) \<longrightarrow> err \<noteq> Some IndexError"
    by force
  from a b c1 c2 d e show ?thesis by blast
qed

theorem stale_indices_are_skipped_witness:
  "labeler_interface (\<lambda>idx. label_policy) ''user_1'' ''2024-01-01 10:00:00'' stale_state
     = (set_label 0 label_policy ''user_1'' ''2024-01-01 10:00:00'' stale_state,
        [(0, \<lparr>instruction = ''What is zoning?'', output_text = ''A land use rule.''\<rparr>)], None)
   \<and> map_of (user_assignments stale_state) ''user_1'' = Some [0, 5]
   \<and> int (length (all_data stale_state)) \<le> 5
   \<and> labels (set_label 0 label_policy ''user_1'' ''2024-01-01 10:00:00'' stale_state) (str_int 5) = None
   \<and> labels (set_label 0 label_policy ''user_1'' ''2024-01-01 10:00:00'' stale_state) (str_int 0)
       = Some \<lparr>label = label_policy, user = ''user_1'', timestamp = ''2024-01-01 10:00:00''\<rparr>"
proof -
  have len: "int (length (all_data stale_state)) \<le> 5"
    by (simp add: stale_state_def one_sample_def)
  have asg: "map_of (user_assignments stale_state) ''user_1'' = Some [0, 5]"
    by (simp add: stale_state_def)
  have before: "labels stale_state (str_int 5) = None"
    by (simp add: stale_state_def init_state_def)
  from stale_indices_are_skipped[OF stale_interface_run] len
  have "labels (set_label 0 label_policy ''user_1'' ''2024-01-01 10:00:00'' stale_state) (str_int 5)
      = labels stale_state (str_int 5)"
    by blast
  with before have five: "labels (set_label 0 label_policy ''user_1'' ''2024-01-01 10:00:00'' stale_state) (str_int 5) = None"
    by simp
  have zero: "labels (set_label 0 label_policy ''user_1'' ''2024-01-01 10:00:00'' stale_state) (str_int 0)
       = Some \<lparr>label = label_policy, user = ''user_1'', timestamp = ''2024-01-01 10:00:00''\<rparr>"
    by (simp add: labels_set_label existing_label_of_def stale_state_def init_state_def label_policy_set)
  from stale_interface_run asg len five zero show ?thesis by blast
qed

end
